theory Spec2Isabelle
  imports Main
begin

section \<open>PageAuto: the page-object layer of \<^verbatim>\<open>pageauto/page_object.py\<close>\<close>

text \<open>
  A \<^verbatim>\<open>PageObject\<close> describes one element of a web page: how to locate it (\<^verbatim>\<open>by\<close>,
  \<^verbatim>\<open>pattern\<close>), how long to wait for it (\<^verbatim>\<open>timeout\<close>, \<^verbatim>\<open>gap\<close>), its parent
  (\<^verbatim>\<open>pre_ele\<close>), its enclosing frame (\<^verbatim>\<open>frame\<close>) and its children (\<^verbatim>\<open>ele_tree\<close>).
  Objects refer to each other and are mutated in place, so they live in a store: a
  reference is the address of an object, addresses are handed out in allocation order.
\<close>

subsection \<open>Exceptions, configuration documents, objects\<close>

type_synonym ref = nat
type_synonym handle = nat

datatype exc =
    ValueError string
  | AttributeError string
  | IndexError
  | TypeError
  | RecursionError
  | NoSuchElementException
  | NoSuchFrameException
  | TimeoutException
  | StaleElementReferenceException
  | WebDriverException

text \<open>
  One entry of the configuration document: the keys a page may carry, each optional in
  the document (\<^verbatim>\<open>pattern\<close> is required by the constructor, not by the dictionary).
\<close>

datatype page = Page
  (page_pattern: "string option")
  (page_by: "string option")
  (page_timeout: "int option")
  (page_gap: "int option")
  (page_ignore: "exc list option")
  (page_is_frame: "bool option")
  (page_order: "int option")
  (page_ele_tree: "(string \<times> page) list option")

type_synonym page_dict = "(string \<times> page) list"

text \<open>
  The attributes of a \<^verbatim>\<open>PageObject\<close> instance. \<open>name\<close> and \<open>pattern\<close> are \<open>None\<close>
  until the constructor assigns them; \<open>by_strategy\<close> is the attribute \<^verbatim>\<open>by\<close>.
\<close>

record pobj =
  name :: "string option"
  pattern :: "string option"
  by_strategy :: string
  timeout :: int
  gap :: int
  ignore :: "exc list"
  is_frame :: bool
  order :: int
  ele_tree :: "(string \<times> ref) list option"
  pre_ele :: "ref option"
  frame :: "ref option"
  eles :: "handle list option"
  last_found :: int
  driver :: "nat option"

record heap =
  objs :: "ref \<Rightarrow> pobj"
  fresh :: ref

text \<open>
  What the module reads from the selenium library at import time: the attribute names of
  \<^verbatim>\<open>object\<close> and of \<^verbatim>\<open>WebElement\<close>, and the items of \<^verbatim>\<open>By.__dict__\<close>. The library is
  not part of the repository, so these are parameters.
\<close>

record env =
  object_dict :: "string list"
  WebElement_dict :: "string list"
  By_dict :: "(string \<times> string) list"

definition ELE_TREE :: string where
  "ELE_TREE = ''ele_tree''"

fun has_dunder :: "string \<Rightarrow> bool" where
  "has_dunder (a # b # cs) = ((a = CHR ''_'' \<and> b = CHR ''_'') \<or> has_dunder (b # cs))"
| "has_dunder _ = False"

definition BY_LIST :: "env \<Rightarrow> string list" where
  "BY_LIST e = map snd (filter (\<lambda>kv. \<not> has_dunder (fst kv)) (By_dict e))"

definition INVALID_ELE_NAME :: "env \<Rightarrow> string list" where
  "INVALID_ELE_NAME e = object_dict e @ WebElement_dict e @ [ELE_TREE]"

definition DEFAULT_ATTRIBUTE :: pobj where
  "DEFAULT_ATTRIBUTE =
     \<lparr> name = None, pattern = None, by_strategy = ''css selector'', timeout = 5, gap = 1,
       ignore = [NoSuchElementException], is_frame = False, order = 0,
       ele_tree = None, pre_ele = None, frame = None, eles = None, last_found = 0,
       driver = None \<rparr>"

definition alloc :: "'a heap_scheme \<Rightarrow> 'a heap_scheme" where
  "alloc h = h\<lparr> objs := (objs h)(fresh h := DEFAULT_ATTRIBUTE), fresh := Suc (fresh h) \<rparr>"

definition upd :: "ref \<Rightarrow> (pobj \<Rightarrow> pobj) \<Rightarrow> 'a heap_scheme \<Rightarrow> 'a heap_scheme" where
  "upd r f h = h\<lparr> objs := (objs h)(r := f (objs h r)) \<rparr>"

subsection \<open>Attribute lookup of \<^verbatim>\<open>name\<close>\<close>

text \<open>
  \<^verbatim>\<open>self.name\<close> goes through \<^verbatim>\<open>__getattr__\<close> when the attribute is not set. If
  \<^verbatim>\<open>WebElement\<close> had an attribute of that name, the lookup would be delegated to
  \<^verbatim>\<open>self.ele\<close>; with no driver attached \<^verbatim>\<open>require_driver\<close> then formats its message
  with \<^verbatim>\<open>obj.name\<close> again, and the lookup recurses until Python gives up. Otherwise
  the original \<^verbatim>\<open>AttributeError\<close> is raised again.
\<close>

definition getattr_name :: "env \<Rightarrow> pobj \<Rightarrow> exc + string" where
  "getattr_name e obj =
     (case name obj of
        Some n \<Rightarrow> Inr n
      | None \<Rightarrow>
          if ''name'' \<in> set (WebElement_dict e) \<and> driver obj = None then Inl RecursionError
          else Inl (AttributeError ''name''))"

subsection \<open>The constructor\<close>

text \<open>
  \<open>merge_page\<close> is lines 159 to 161: the keys of the page (\<^verbatim>\<open>ele_tree\<close> has been
  popped) overwrite the attributes, then \<^verbatim>\<open>last_found\<close> and \<^verbatim>\<open>eles\<close> are reset.
\<close>

definition merge_page :: "page \<Rightarrow> pobj \<Rightarrow> pobj" where
  "merge_page pg obj =
     obj\<lparr> pattern := (case page_pattern pg of Some v \<Rightarrow> Some v | None \<Rightarrow> pattern obj),
          by_strategy := (case page_by pg of Some v \<Rightarrow> v | None \<Rightarrow> by_strategy obj),
          timeout := (case page_timeout pg of Some v \<Rightarrow> v | None \<Rightarrow> timeout obj),
          gap := (case page_gap pg of Some v \<Rightarrow> v | None \<Rightarrow> gap obj),
          ignore := (case page_ignore pg of Some v \<Rightarrow> v | None \<Rightarrow> ignore obj),
          is_frame := (case page_is_frame pg of Some v \<Rightarrow> v | None \<Rightarrow> is_frame obj),
          order := (case page_order pg of Some v \<Rightarrow> v | None \<Rightarrow> order obj),
          last_found := 0,
          eles := None \<rparr>"

text \<open>
  \<^verbatim>\<open>PageObject.__init__\<close>. The new object is allocated with the default attributes
  (line 136). The loop over \<^verbatim>\<open>page_dict.items()\<close> ends in \<^verbatim>\<open>break\<close>, so its body runs
  for the first entry only, and not at all for an empty dictionary. The three checks
  come before \<^verbatim>\<open>self.name = name\<close>; the second and the third format their message
  with \<^verbatim>\<open>self.name\<close>. \<open>init_ele_tree\<close> is the loop of lines 156 and 157 over the
  children, each built with \<^verbatim>\<open>pre_ele=self\<close> and \<^verbatim>\<open>frame=ele_frame\<close>; the references it
  returns are what \<^verbatim>\<open>self.ele_tree\<close> holds afterwards.
\<close>

fun PageObject_init ::
    "env \<Rightarrow> page_dict \<Rightarrow> ref option \<Rightarrow> ref option \<Rightarrow> 'a heap_scheme \<Rightarrow> exc + (ref \<times> 'a heap_scheme)"
and init_ele_tree ::
    "env \<Rightarrow> (string \<times> page) list \<Rightarrow> ref \<Rightarrow> ref option \<Rightarrow> 'a heap_scheme
       \<Rightarrow> exc + ((string \<times> ref) list \<times> 'a heap_scheme)"
where
  "PageObject_init e [] pre fr h = Inr (fresh h, alloc h)"
| "PageObject_init e ((nm, Page pat byv tmo gp ig isf ord tree) # rest) pre fr h =
     (let self = fresh h; h0 = alloc h; pg = Page pat byv tmo gp ig isf ord tree in
      if nm \<in> set (INVALID_ELE_NAME e) then Inl (ValueError nm)
      else if pat = None then
        (case getattr_name e (objs h0 self) of Inl x \<Rightarrow> Inl x | Inr n \<Rightarrow> Inl (ValueError n))
      else if (case byv of Some b \<Rightarrow> b \<notin> set (BY_LIST e) | None \<Rightarrow> False) then
        (case getattr_name e (objs h0 self) of Inl x \<Rightarrow> Inl x | Inr n \<Rightarrow> Inl (ValueError n))
      else
        let h1 = upd self (\<lambda>obj. obj\<lparr> name := Some nm, pre_ele := pre, frame := fr \<rparr>) h0 in
        (case tree of
           None \<Rightarrow> Inr (self, upd self (merge_page pg) h1)
         | Some kids \<Rightarrow>
             let ele_frame = (if isf = Some True then Some self else fr) in
             (case init_ele_tree e kids self ele_frame h1 of
                Inl x \<Rightarrow> Inl x
              | Inr (refs, h2) \<Rightarrow>
                  Inr (self, upd self (\<lambda>obj. merge_page pg (obj\<lparr> ele_tree := Some refs \<rparr>)) h2))))"
| "init_ele_tree e [] self ele_frame h = Inr ([], h)"
| "init_ele_tree e ((ele, pg) # others) self ele_frame h =
     (case PageObject_init e [(ele, pg)] (Some self) ele_frame h of
        Inl x \<Rightarrow> Inl x
      | Inr (r, h') \<Rightarrow>
          (case init_ele_tree e others self ele_frame h' of
             Inl x \<Rightarrow> Inl x
           | Inr (refs, h'') \<Rightarrow> Inr ((ele, r) # refs, h'')))"

subsection \<open>The browser\<close>

text \<open>
  The browser session is the collaborator. The model keeps what the code can observe of
  it: a clock (\<^verbatim>\<open>time.time()\<close>), the frame the session is switched into
  (\<open>None\<close> is the top-level content), the calls issued so far, and a script that
  says, for each wait in turn, how long it takes and what its successive polls of
  \<^verbatim>\<open>find_elements\<close> give. Every wait polls at least once, so a script entry has a first
  poll and a list of later ones. The clock counts in ticks and advances only while a
  wait runs.
\<close>

datatype scope = Session | Within handle

datatype attempt = Matches "handle list" | Throws exc

datatype call =
    FindElements scope string "string option"
  | SwitchToFrame handle
  | SwitchToDefaultContent
  | GetAttribute handle
  | ExecuteScript "handle option"
  | SaveScreenshot
  | Click handle
  | SendKeys handle string

record world = heap +
  now :: int
  waits :: "(int \<times> attempt \<times> attempt list) list"
  switched_to :: "handle option"
  calls :: "call list"

definition native :: "call \<Rightarrow> world \<Rightarrow> world" where
  "native c w = w\<lparr> calls := calls w @ [c] \<rparr>"

text \<open>
  Modelled from the spec: \<^verbatim>\<open>WebDriverWait(...).until\<close> belongs to the selenium library,
  which is not part of the repository. Section 4.2, step 3: query repeatedly until a
  non-empty result is obtained or the timeout elapses; a failure whose kind is in the
  ignore list is swallowed and retried, any other failure propagates at once. The list
  given to \<open>until\<close> holds the outcomes of the polls made before the deadline.
\<close>

fun until :: "exc list \<Rightarrow> attempt list \<Rightarrow> exc + handle list" where
  "until ig [] = Inl TimeoutException"
| "until ig (Matches hs # rest) = (if hs \<noteq> [] then Inr hs else until ig rest)"
| "until ig (Throws x # rest) = (if x \<in> set ig then until ig rest else Inl x)"

subsection \<open>Resolution: \<^verbatim>\<open>find\<close>, \<^verbatim>\<open>ele\<close>, \<^verbatim>\<open>count\<close>\<close>

text \<open>
  What \<^verbatim>\<open>find\<close> returns when it does not return \<^verbatim>\<open>None\<close>: the list \<^verbatim>\<open>self.eles\<close> or
  the single element \<^verbatim>\<open>self.ele\<close>.
\<close>

datatype found = Handles "handle list" | Handle handle

text \<open>Python's \<^verbatim>\<open>xs[i]\<close>: a negative index counts from the end.\<close>

definition getitem :: "handle list \<Rightarrow> int \<Rightarrow> exc + handle" where
  "getitem xs i =
     (if 0 \<le> i \<and> i < int (length xs) then Inr (xs ! nat i)
      else if i < 0 \<and> - int (length xs) \<le> i then Inr (xs ! nat (int (length xs) + i))
      else Inl IndexError)"

definition PageObject_count :: "pobj \<Rightarrow> int" where
  "PageObject_count obj = (case eles obj of Some xs \<Rightarrow> int (length xs) | None \<Rightarrow> 0)"

text \<open>
  Lines 230 to 244 of \<^verbatim>\<open>find\<close>: the wait on the scope found, the cache update on
  success, \<^verbatim>\<open>None\<close> on \<^verbatim>\<open>TimeoutException\<close>. A wait with no script left polls once,
  finds nothing and takes the timeout.
\<close>

definition wait_for :: "scope \<Rightarrow> ref \<Rightarrow> world \<Rightarrow> (exc + found option) \<times> world" where
  "wait_for sc r w =
     (let obj = objs w r;
          script = (case waits w of [] \<Rightarrow> (timeout obj, Matches [], []) | s # _ \<Rightarrow> s);
          w1 = w\<lparr> waits := tl (waits w), now := now w + fst script,
                  calls := calls w @ [FindElements sc (by_strategy obj) (pattern obj)] \<rparr>
      in case until (ignore obj) (fst (snd script) # snd (snd script)) of
           Inr hs \<Rightarrow>
             (Inr (Some (Handles hs)),
              upd r (\<lambda>obj. obj\<lparr> eles := Some hs, last_found := now w1 \<rparr>) w1)
         | Inl x \<Rightarrow> if x = TimeoutException then (Inr None, w1) else (Inl x, w1))"

text \<open>
  \<^verbatim>\<open>find\<close> calls itself on the parent and \<^verbatim>\<open>ele\<close> calls \<^verbatim>\<open>find\<close>, following
  \<^verbatim>\<open>pre_ele\<close> references through the store; the first argument bounds the depth of
  these calls, and \<open>None\<close> says the bound was too small. \<open>temp_pre_ele\<close> is the
  block of \<^verbatim>\<open>find\<close> that determines the search scope (lines 221 to 229). The decorator
  \<^verbatim>\<open>require_driver\<close> on \<^verbatim>\<open>find\<close> is its first test; an object that was built from an
  empty dictionary has no attribute \<^verbatim>\<open>eles\<close>, which is the second.
\<close>

fun PageObject_find :: "nat \<Rightarrow> string \<Rightarrow> ref \<Rightarrow> world \<Rightarrow> ((exc + found option) \<times> world) option"
and temp_pre_ele :: "nat \<Rightarrow> ref \<Rightarrow> world \<Rightarrow> ((exc + scope) \<times> world) option"
and PageObject_ele :: "nat \<Rightarrow> ref \<Rightarrow> world \<Rightarrow> ((exc + handle option) \<times> world) option"
where
  "PageObject_find 0 src r w = None"
| "PageObject_find (Suc n) src r w =
     (let obj = objs w r in
      if driver obj = None then Some (Inl (AttributeError ''driver''), w)
      else if name obj = None then Some (Inl (AttributeError ''eles''), w)
      else if eles obj \<noteq> None \<and> now w - last_found obj < gap obj then
        (if src = ''ele'' then Some (Inr (map_option Handles (eles obj)), w)
         else
           (case PageObject_ele n r w of
              None \<Rightarrow> None
            | Some (Inl x, w') \<Rightarrow> Some (Inl x, w')
            | Some (Inr e, w') \<Rightarrow> Some (Inr (map_option Handle e), w')))
      else
        (case temp_pre_ele (Suc n) r (upd r (\<lambda>obj. obj\<lparr> eles := None \<rparr>) w) of
           None \<Rightarrow> None
         | Some (Inl x, w1) \<Rightarrow> Some (Inl x, w1)
         | Some (Inr sc, w1) \<Rightarrow> Some (wait_for sc r w1)))"
| "temp_pre_ele 0 r w = None"
| "temp_pre_ele (Suc n) r w =
     (case pre_ele (objs w r) of
        None \<Rightarrow> Some (Inr Session, w)
      | Some p \<Rightarrow>
          if is_frame (objs w p) then Some (Inr Session, w)
          else
            (case PageObject_find n '''' p w of
               None \<Rightarrow> None
             | Some (Inl x, w1) \<Rightarrow> Some (Inl x, w1)
             | Some (Inr None, w1) \<Rightarrow> Some (Inl NoSuchElementException, w1)
             | Some (Inr (Some _), w1) \<Rightarrow>
                 (case PageObject_ele n p w1 of
                    None \<Rightarrow> None
                  | Some (Inl x, w2) \<Rightarrow> Some (Inl x, w2)
                  | Some (Inr None, w2) \<Rightarrow> Some (Inl (AttributeError ''find_elements''), w2)
                  | Some (Inr (Some h), w2) \<Rightarrow> Some (Inr (Within h), w2))))"
| "PageObject_ele 0 r w = None"
| "PageObject_ele (Suc n) r w =
     (case PageObject_find n ''ele'' r w of
        None \<Rightarrow> None
      | Some (Inl x, w') \<Rightarrow> Some (Inl x, w')
      | Some (Inr res, w') \<Rightarrow>
          if res \<noteq> None \<and> order (objs w' r) < PageObject_count (objs w' r) then
            (case eles (objs w' r) of
               None \<Rightarrow> Some (Inl TypeError, w')
             | Some xs \<Rightarrow>
                 (case getitem xs (order (objs w' r)) of
                    Inl x \<Rightarrow> Some (Inl x, w')
                  | Inr h \<Rightarrow> Some (Inr (Some h), w')))
          else Some (Inr None, w'))"

subsection \<open>The decorators and the actions\<close>

text \<open>
  A decorated method takes the object and the world and may raise. The calls on the
  browser are recorded in \<open>calls\<close>; \<^verbatim>\<open>switch_to.frame\<close> and
  \<^verbatim>\<open>switch_to.default_content\<close> also move \<open>switched_to\<close>.
\<close>

type_synonym 'a action = "nat \<Rightarrow> ref \<Rightarrow> world \<Rightarrow> ((exc + 'a) \<times> world) option"

definition require_driver :: "'a action \<Rightarrow> 'a action" where
  "require_driver func n r w =
     (if driver (objs w r) \<noteq> None then func n r w
      else Some (Inl (AttributeError ''driver''), w))"

definition switch_frame :: "'a action \<Rightarrow> 'a action" where
  "switch_frame func n r w =
     (case frame (objs w r) of
        None \<Rightarrow> func n r w
      | Some f \<Rightarrow>
          (case PageObject_find n '''' f w of
             None \<Rightarrow> None
           | Some (Inl x, w1) \<Rightarrow> Some (Inl x, w1)
           | Some (Inr None, w1) \<Rightarrow> Some (Inl NoSuchFrameException, w1)
           | Some (Inr (Some _), w1) \<Rightarrow>
               (case eles (objs w1 f) of
                  None \<Rightarrow> Some (Inl TypeError, w1)
                | Some xs \<Rightarrow>
                    (case getitem xs 0 of
                       Inl x \<Rightarrow> Some (Inl x, w1)
                     | Inr h \<Rightarrow>
                         (case func n r ((native (SwitchToFrame h) w1)\<lparr> switched_to := Some h \<rparr>) of
                            None \<Rightarrow> None
                          | Some (Inl x, w2) \<Rightarrow> Some (Inl x, w2)
                          | Some (Inr ret, w2) \<Rightarrow>
                              Some (Inr ret,
                                (native SwitchToDefaultContent w2)\<lparr> switched_to := None \<rparr>))))))"

definition highlight :: "'a action \<Rightarrow> 'a action" where
  "highlight func n r w =
     (case PageObject_ele n r w of
        None \<Rightarrow> None
      | Some (Inl x, w1) \<Rightarrow> Some (Inl x, w1)
      | Some (Inr None, w1) \<Rightarrow> Some (Inl (AttributeError ''get_attribute''), w1)
      | Some (Inr (Some h), w1) \<Rightarrow>
          (case PageObject_ele n r (native (GetAttribute h) w1) of
             None \<Rightarrow> None
           | Some (Inl x, w2) \<Rightarrow> Some (Inl x, w2)
           | Some (Inr e, w2) \<Rightarrow>
               (case func n r (native (ExecuteScript e) w2) of
                  None \<Rightarrow> None
                | Some (Inl x, w3) \<Rightarrow> Some (Inl x, w3)
                | Some (Inr ret, w3) \<Rightarrow>
                    (case PageObject_ele n r w3 of
                       None \<Rightarrow> None
                     | Some (Inl x, w4) \<Rightarrow>
                         if x = NoSuchElementException then Some (Inr ret, w4)
                         else Some (Inl x, w4)
                     | Some (Inr e', w4) \<Rightarrow> Some (Inr ret, native (ExecuteScript e') w4)))))"

definition screenshot :: "'a action \<Rightarrow> 'a action" where
  "screenshot func n r w =
     (case func n r (native SaveScreenshot w) of
        None \<Rightarrow> None
      | Some (Inl x, w1) \<Rightarrow> Some (Inl x, w1)
      | Some (Inr ret, w1) \<Rightarrow> Some (Inr ret, native SaveScreenshot w1))"

definition click_body :: "unit action" where
  "click_body n r w =
     (case PageObject_ele n r w of
        None \<Rightarrow> None
      | Some (Inl x, w1) \<Rightarrow> Some (Inl x, w1)
      | Some (Inr None, w1) \<Rightarrow> Some (Inl (AttributeError ''click''), w1)
      | Some (Inr (Some h), w1) \<Rightarrow> Some (Inr (), native (Click h) w1))"

definition send_keys_body :: "string \<Rightarrow> unit action" where
  "send_keys_body keys n r w =
     (case PageObject_ele n r w of
        None \<Rightarrow> None
      | Some (Inl x, w1) \<Rightarrow> Some (Inl x, w1)
      | Some (Inr None, w1) \<Rightarrow> Some (Inl (AttributeError ''send_keys''), w1)
      | Some (Inr (Some h), w1) \<Rightarrow> Some (Inr (), native (SendKeys h keys) w1))"

definition PageObject_click :: "unit action" where
  "PageObject_click = require_driver (switch_frame (highlight (screenshot click_body)))"

definition PageObject_send_keys :: "string \<Rightarrow> unit action" where
  "PageObject_send_keys keys =
     require_driver (switch_frame (highlight (screenshot (send_keys_body keys))))"

definition empty_heap :: heap where
  "empty_heap = \<lparr> objs = (\<lambda>_. DEFAULT_ATTRIBUTE), fresh = 0 \<rparr>"

text \<open>
  A sample of what selenium provides, for the concrete evaluations below: a few attribute
  names of \<^verbatim>\<open>object\<close> and \<^verbatim>\<open>WebElement\<close>, and the locator strategies of \<^verbatim>\<open>By\<close>.
\<close>

definition sample_env :: env where
  "sample_env =
     \<lparr> object_dict = [''__class__'', ''__init__'', ''__dict__'', ''__repr__''],
       WebElement_dict = [''__module__'', ''tag_name'', ''text'', ''click'', ''send_keys'',
                          ''get_attribute'', ''find_elements'', ''id'', ''parent''],
       By_dict = [(''__module__'', ''selenium.webdriver.common.by''),
                  (''ID'', ''id''), (''XPATH'', ''xpath''), (''LINK_TEXT'', ''link text''),
                  (''PARTIAL_LINK_TEXT'', ''partial link text''), (''NAME'', ''name''),
                  (''TAG_NAME'', ''tag name''), (''CLASS_NAME'', ''class name''),
                  (''CSS_SELECTOR'', ''css selector''), (''__doc__'', ''locators'')] \<rparr>"

subsection \<open>Following parent links\<close>


definition linked :: "'a heap_scheme \<Rightarrow> ref \<Rightarrow> ref \<Rightarrow> bool" where
  "linked h lo r \<longleftrightarrow>
     (case pre_ele (objs h r) of
        None \<Rightarrow> False
      | Some p \<Rightarrow> lo \<le> p \<and> p < r \<and>
          frame (objs h r) = (if is_frame (objs h p) then Some p else frame (objs h p)))"

text \<open>A document with a frame two levels above a button, and the store built from it.\<close>

definition example_doc :: page_dict where
  "example_doc =
     [(''page'', Page (Some ''body'') None None None None None None (Some
        [(''iframe'', Page (Some ''iframe'') (Some ''tag name'') None None None (Some True) None (Some
           [(''box'', Page (Some ''.box'') None None None None None None (Some
              [(''btn'', Page (Some ''button'') None None None None None (Some 1) None)]))])),
         (''footer'', Page (Some ''#footer'') (Some ''css selector'') None None None None None None)]))]"

definition example_tree :: heap where
  "example_tree =
     (case PageObject_init sample_env example_doc None None empty_heap of
        Inl _ \<Rightarrow> empty_heap
      | Inr (root, h) \<Rightarrow> h)"

subsection \<open>Notions used in the statements\<close>

text \<open>
  \<open>static\<close> forgets the two attributes that resolution writes. \<open>cached\<close> is the test
  of line 209: there is a cached result and it is younger than \<^verbatim>\<open>gap\<close>.
\<close>

definition static :: "pobj \<Rightarrow> pobj" where
  "static obj = obj\<lparr> eles := None, last_found := 0 \<rparr>"

definition cached :: "world \<Rightarrow> ref \<Rightarrow> bool" where
  "cached w r \<longleftrightarrow> eles (objs w r) \<noteq> None \<and> now w - last_found (objs w r) < gap (objs w r)"

text \<open>
  \<open>ordered\<close>: every parent reference points to a lower address, that is, to an
  object allocated earlier.
\<close>

definition ordered :: "'a heap_scheme \<Rightarrow> bool" where
  "ordered w \<longleftrightarrow> (\<forall>r p. pre_ele (objs w r) = Some p \<longrightarrow> p < r)"

text \<open>
  Worlds for the concrete evaluations: a root descriptor \<^verbatim>\<open>login\<close>, cached or waiting;
  a descriptor \<^verbatim>\<open>user\<close> under it; a button inside a frame.
\<close>

definition root_obj :: pobj where
  "root_obj = DEFAULT_ATTRIBUTE\<lparr> name := Some ''login'', pattern := Some ''#login'',
      driver := Some 1 \<rparr>"

definition cached_world :: "handle list \<Rightarrow> int \<Rightarrow> world" where
  "cached_world xs k =
     \<lparr> objs = (\<lambda>_. DEFAULT_ATTRIBUTE)
                (0 := root_obj\<lparr> eles := Some xs, last_found := 100, order := k \<rparr>),
       fresh = 1, now = 100, waits = [], switched_to = None, calls = [] \<rparr>"

definition waiting_world :: "int \<Rightarrow> attempt \<Rightarrow> attempt list \<Rightarrow> int \<Rightarrow> world" where
  "waiting_world d a as k =
     \<lparr> objs = (\<lambda>_. DEFAULT_ATTRIBUTE)(0 := root_obj\<lparr> order := k \<rparr>),
       fresh = 1, now = 100, waits = [(d, a, as)], switched_to = None, calls = [] \<rparr>"

definition stale_child_world :: world where
  "stale_child_world =
     \<lparr> objs = (\<lambda>_. DEFAULT_ATTRIBUTE)
         (0 := root_obj\<lparr> eles := Some [7], last_found := 100, order := 1 \<rparr>,
          1 := DEFAULT_ATTRIBUTE\<lparr> name := Some ''user'', pattern := Some ''input'',
                 driver := Some 1, pre_ele := Some 0, eles := Some [9], last_found := 90 \<rparr>),
       fresh = 2, now = 100, waits = [(1, Matches [9], [])], switched_to = None, calls = [] \<rparr>"


definition frame_box :: pobj where
  "frame_box = DEFAULT_ATTRIBUTE\<lparr> name := Some ''iframe'', pattern := Some ''iframe'',
      by_strategy := ''tag name'', is_frame := True, driver := Some 1 \<rparr>"

definition button :: pobj where
  "button = DEFAULT_ATTRIBUTE\<lparr> name := Some ''btn'', pattern := Some ''button'',
      pre_ele := Some 0, frame := Some 0, driver := Some 1 \<rparr>"

definition framed_world :: "attempt \<Rightarrow> world" where
  "framed_world a =
     \<lparr> objs = (\<lambda>_. DEFAULT_ATTRIBUTE)(0 := frame_box, 1 := button), fresh = 2,
       now = 100, waits = [(0, Matches [7], []), (0, a, [])],
       switched_to = None, calls = [] \<rparr>"

section \<open>The constructor: validation and the first entry\<close>

lemma BY_LIST_sample:
  "BY_LIST sample_env =
     [''id'', ''xpath'', ''link text'', ''partial link text'', ''name'', ''tag name'',
      ''class name'', ''css selector'']"
  by (simp add: BY_LIST_def sample_env_def)

lemma INVALID_ELE_NAME_sample:
  "set (INVALID_ELE_NAME sample_env) =
     {''__class__'', ''__init__'', ''__dict__'', ''__repr__'', ''__module__'', ''tag_name'',
      ''text'', ''click'', ''send_keys'', ''get_attribute'', ''find_elements'', ''id'',
      ''parent'', ''ele_tree''}"
  by (simp add: INVALID_ELE_NAME_def sample_env_def ELE_TREE_def)

lemma fresh_object_has_no_name:
  "getattr_name e (objs (alloc h) (fresh h)) =
     (if ''name'' \<in> set (WebElement_dict e) then Inl RecursionError
      else Inl (AttributeError ''name''))"
  by (simp add: getattr_name_def alloc_def DEFAULT_ATTRIBUTE_def)

text \<open>
  The two validation branches that format their message with \<^verbatim>\<open>self.name\<close> run before
  \<^verbatim>\<open>self.name = name\<close>: whatever the document, they end in the failed attribute lookup,
  never in the \<^verbatim>\<open>ValueError\<close> they were building.
\<close>

lemma missing_pattern_raises:
  assumes "nm \<notin> set (INVALID_ELE_NAME e)"
  shows "PageObject_init e ((nm, Page None byv tmo gp ig isf ord tree) # rest) pre fr h =
           (if ''name'' \<in> set (WebElement_dict e) then Inl RecursionError
            else Inl (AttributeError ''name''))"
  using assms by (simp add: Let_def fresh_object_has_no_name)

lemma invalid_by_raises:
  assumes "nm \<notin> set (INVALID_ELE_NAME e)" and "b \<notin> set (BY_LIST e)"
  shows "PageObject_init e ((nm, Page (Some pat) (Some b) tmo gp ig isf ord tree) # rest) pre fr h =
           (if ''name'' \<in> set (WebElement_dict e) then Inl RecursionError
            else Inl (AttributeError ''name''))"
  using assms by (simp add: Let_def fresh_object_has_no_name)

text \<open>
  C3. A descriptor entry without a \<^verbatim>\<open>pattern\<close> key should make the constructor fail with
  the \<^verbatim>\<open>ValueError\<close> that names the page. Evaluated on the document
  \<^verbatim>\<open>{login: {by: id}}\<close>, and on a document whose child entry lacks the pattern, the
  constructor raises \<^verbatim>\<open>AttributeError\<close> for the attribute \<^verbatim>\<open>name\<close> instead.
\<close>

theorem C3_missing_pattern_raises_AttributeError:
  "PageObject_init sample_env
     [(''login'', Page None (Some ''id'') None None None None None None)] None None empty_heap
     = Inl (AttributeError ''name'')
   \<and> PageObject_init sample_env
     [(''login'', Page (Some ''#login'') None None None None None None
         (Some [(''user'', Page None None None None None None None None)]))] None None empty_heap
     = Inl (AttributeError ''name'')"
  by (simp add: Let_def fresh_object_has_no_name INVALID_ELE_NAME_sample BY_LIST_sample)
    (simp add: sample_env_def)

text \<open>
  C8. An entry whose \<^verbatim>\<open>by\<close> is not one of the locator strategies should make the
  constructor fail with the configuration error. Evaluated on
  \<^verbatim>\<open>{login: {pattern: "#login", by: bogus-strategy}}\<close>, the constructor does fail, but
  with \<^verbatim>\<open>AttributeError\<close> for the attribute \<^verbatim>\<open>name\<close>.
\<close>

theorem C8_bogus_by_raises_AttributeError:
  "PageObject_init sample_env
     [(''login'', Page (Some ''#login'') (Some ''bogus-strategy'') None None None None None None)]
     None None empty_heap
     = Inl (AttributeError ''name'')"
  by (simp add: Let_def fresh_object_has_no_name INVALID_ELE_NAME_sample BY_LIST_sample)
    (simp add: sample_env_def)



section \<open>The constructor: frames and parents\<close>

lemma linked_cong:
  assumes "linked h lo r" and "\<And>x. lo \<le> x \<Longrightarrow> x \<le> r \<Longrightarrow> objs h' x = objs h x"
  shows "linked h' lo r"
proof -
  from assms(1) obtain p where p: "pre_ele (objs h r) = Some p" "lo \<le> p" "p < r"
    "frame (objs h r) = (if is_frame (objs h p) then Some p else frame (objs h p))"
    by (auto simp: linked_def split: option.splits)
  have "objs h' r = objs h r" "objs h' p = objs h p"
    using p assms(2) by auto
  with p show ?thesis by (simp add: linked_def)
qed

lemma linked_mono: "linked h lo r \<Longrightarrow> lo' \<le> lo \<Longrightarrow> linked h lo' r"
  by (auto simp: linked_def split: option.splits)


lemma alloc_simps [simp]:
  "fresh (alloc h) = Suc (fresh h)"
  "objs (alloc h) r = (if r = fresh h then DEFAULT_ATTRIBUTE else objs h r)"
  by (simp_all add: alloc_def)

lemma upd_simps [simp]:
  "fresh (upd a f h) = fresh h"
  "objs (upd a f h) r = (if r = a then f (objs h a) else objs h r)"
  by (simp_all add: upd_def)

lemma merge_page_simps [simp]:
  "pre_ele (merge_page pg obj) = pre_ele obj"
  "frame (merge_page pg obj) = frame obj"
  "is_frame (merge_page pg obj) =
     (case page_is_frame pg of Some v \<Rightarrow> v | None \<Rightarrow> is_frame obj)"
  by (simp_all add: merge_page_def)

lemma init_inv:
  "PageObject_init e d pre fr h = Inr (self, h') \<Longrightarrow>
     self = fresh h \<and> fresh h < fresh h' \<and> (\<forall>r<fresh h. objs h' r = objs h r) \<and>
     (d \<noteq> [] \<longrightarrow> pre_ele (objs h' self) = pre \<and> frame (objs h' self) = fr
         \<and> is_frame (objs h' self) = (page_is_frame (snd (hd d)) = Some True)) \<and>
     (\<forall>r. fresh h < r \<and> r < fresh h' \<longrightarrow> linked h' (fresh h) r)"
  and
  "init_ele_tree e kids parent ef (h::'a heap_scheme) = Inr (refs, h') \<Longrightarrow>
     fresh h \<le> fresh h' \<and> (\<forall>r<fresh h. objs h' r = objs h r) \<and>
     (\<forall>r. fresh h \<le> r \<and> r < fresh h' \<longrightarrow>
        (pre_ele (objs h' r) = Some parent \<and> frame (objs h' r) = ef) \<or> linked h' (fresh h) r)"
proof (induction e d pre fr h and e kids parent ef h arbitrary: self h' and refs h'
    rule: PageObject_init_init_ele_tree.induct)
  case (1 e pre fr h)
  then show ?case by auto
next
  case (2 e nm pat byv tmo gp ig isf ord tree rest pre fr h)
  define me where "me = fresh h"
  define pg where "pg = Page pat byv tmo gp ig isf ord tree"
  define h1 where
    "h1 = upd me (\<lambda>obj. obj\<lparr>name := Some nm, pre_ele := pre, frame := fr\<rparr>) (alloc h)"
  define ef where "ef = (if isf = Some True then Some me else fr)"
  have ok: "nm \<notin> set (INVALID_ELE_NAME e)" "pat \<noteq> None"
    "\<not> (case byv of None \<Rightarrow> False | Some b \<Rightarrow> b \<notin> set (BY_LIST e))"
    using "2.prems" by (auto simp: Let_def split: if_splits sum.splits)
  have isf_eq: "(case isf of None \<Rightarrow> False | Some v \<Rightarrow> v) = (isf = Some True)"
    by (cases isf) auto
  show ?case
  proof (cases tree)
    case None
    with "2.prems" ok have "self = me" "h' = upd me (merge_page pg) h1"
      by (auto simp: Let_def me_def pg_def h1_def)
    then show ?thesis
      by (cases isf) (auto simp: me_def h1_def pg_def DEFAULT_ATTRIBUTE_def)
  next
    case (Some kids)
    with "2.prems" ok have
      "(case init_ele_tree e kids me ef h1 of
          Inl x \<Rightarrow> Inl x
        | Inr (refs, h2) \<Rightarrow>
            Inr (me, upd me (\<lambda>obj. merge_page pg (obj\<lparr>ele_tree := Some refs\<rparr>)) h2))
       = Inr (self, h')"
      unfolding me_def pg_def h1_def ef_def
      by (auto simp: Let_def split: if_splits sum.splits)
    then obtain refs h2 where
      kids: "init_ele_tree e kids me ef h1 = Inr (refs, h2)" and
      res: "self = me" "h' = upd me (\<lambda>obj. merge_page pg (obj\<lparr>ele_tree := Some refs\<rparr>)) h2"
      by (auto split: sum.splits)
    have IH: "fresh h1 \<le> fresh h2" "\<forall>r<fresh h1. objs h2 r = objs h1 r"
      "\<forall>r. fresh h1 \<le> r \<and> r < fresh h2 \<longrightarrow>
        (pre_ele (objs h2 r) = Some me \<and> frame (objs h2 r) = ef) \<or> linked h2 (fresh h1) r"
      using "2.IH"[OF me_def refl refl ok h1_def Some ef_def kids] by auto
    have f1: "fresh h1 = Suc me" by (simp add: h1_def me_def)
    have me_obj: "objs h2 me = objs h1 me" using IH(2) f1 by simp
    have a: "self = fresh h" "fresh h < fresh h'"
      using res IH(1) f1 by (auto simp: me_def)
    have b: "\<forall>r<fresh h. objs h' r = objs h r"
      using res IH(2) f1 by (auto simp: me_def h1_def)
    have c: "pre_ele (objs h' self) = pre" "frame (objs h' self) = fr"
      "is_frame (objs h' self) = (isf = Some True)"
      using res me_obj by (cases isf; auto simp: h1_def pg_def me_def DEFAULT_ATTRIBUTE_def)+
    have d: "linked h' (fresh h) r" if r: "fresh h < r" "r < fresh h'" for r
    proof -
      from r res f1 have r2: "fresh h1 \<le> r" "r < fresh h2" by (auto simp: me_def)
      with IH(3) consider
        (direct) "pre_ele (objs h2 r) = Some me" "frame (objs h2 r) = ef"
        | (deep) "linked h2 (fresh h1) r" by blast
      then show ?thesis
      proof cases
        case direct
        have "objs h' r = objs h2 r" using res r by (auto simp: me_def)
        with direct c res r show ?thesis
          by (auto simp: linked_def ef_def me_def)
      next
        case deep
        have "linked h' (fresh h1) r"
          by (rule linked_cong[OF deep]) (use res f1 in auto)
        then show ?thesis by (rule linked_mono) (simp add: f1 me_def)
      qed
    qed
    from a b c d show ?thesis by (simp add: pg_def)
  qed
next
  case (3 e self ele_frame h)
  then show ?case by auto
next
  case (4 e ele pg others self ele_frame h)
  from "4.prems" obtain r h1 rs where
    one: "PageObject_init e [(ele, pg)] (Some self) ele_frame h = Inr (r, h1)" and
    rest: "init_ele_tree e others self ele_frame h1 = Inr (rs, h')"
    by (auto split: sum.splits)
  have A: "r = fresh h" "fresh h < fresh h1" "\<forall>x<fresh h. objs h1 x = objs h x"
    "pre_ele (objs h1 r) = Some self" "frame (objs h1 r) = ele_frame"
    "\<forall>x. fresh h < x \<and> x < fresh h1 \<longrightarrow> linked h1 (fresh h) x"
    using "4.IH"(1)[OF one] by auto
  have B: "fresh h1 \<le> fresh h'" "\<forall>x<fresh h1. objs h' x = objs h1 x"
    "\<forall>x. fresh h1 \<le> x \<and> x < fresh h' \<longrightarrow>
        (pre_ele (objs h' x) = Some self \<and> frame (objs h' x) = ele_frame)
        \<or> linked h' (fresh h1) x"
    using "4.IH"(2)[OF one refl rest] by auto
  have "(pre_ele (objs h' x) = Some self \<and> frame (objs h' x) = ele_frame)
        \<or> linked h' (fresh h) x" if x: "fresh h \<le> x" "x < fresh h'" for x
  proof -
    consider "x = r" | "fresh h < x" "x < fresh h1" | "fresh h1 \<le> x"
      using x A(1) by linarith
    then show ?thesis
    proof cases
      case 1
      then show ?thesis using A B(2) by auto
    next
      case 2
      with A(6) have "linked h1 (fresh h) x" by blast
      then have "linked h' (fresh h) x"
        by (rule linked_cong) (use B(2) 2 in auto)
      then show ?thesis ..
    next
      case 3
      with B(3) x show ?thesis
        using A(2) linked_mono[of h' "fresh h1" x "fresh h"] by auto
    qed
  qed
  with A B show ?case by auto
qed



lemmas build_simps =
  Let_def INVALID_ELE_NAME_sample BY_LIST_sample empty_heap_def example_doc_def

lemma example_built:
  "PageObject_init sample_env example_doc None None empty_heap = Inr (0, example_tree)"
  unfolding example_tree_def by (simp add: build_simps)


lemma fresh_empty_heap [simp]: "fresh empty_heap = 0"
  by (simp add: empty_heap_def)


section \<open>Resolution and actions\<close>

lemma native_simps [simp]:
  "calls (native c w) = calls w @ [c]"
  "objs (native c w) = objs w"
  "fresh (native c w) = fresh w"
  "switched_to (native c w) = switched_to w"
  "now (native c w) = now w"
  "waits (native c w) = waits w"
  by (simp_all add: native_def)

lemma upd_world_simps [simp]:
  "now (upd a f w) = now w"
  "waits (upd a f w) = waits w"
  "calls (upd a f w) = calls w"
  "switched_to (upd a f w) = switched_to w"
  by (simp_all add: upd_def)

lemma static_simps [simp]:
  "static (obj\<lparr> eles := v \<rparr>) = static obj"
  "static (obj\<lparr> last_found := t \<rparr>) = static obj"
  by (simp_all add: static_def)

lemma static_fields:
  assumes "static a = static b"
  shows "name a = name b" "pattern a = pattern b" "by_strategy a = by_strategy b"
    "timeout a = timeout b" "gap a = gap b" "ignore a = ignore b" "is_frame a = is_frame b"
    "order a = order b" "ele_tree a = ele_tree b" "pre_ele a = pre_ele b" "frame a = frame b"
    "driver a = driver b"
proof -
  have "name (static a) = name (static b)" "pattern (static a) = pattern (static b)"
    "by_strategy (static a) = by_strategy (static b)" "timeout (static a) = timeout (static b)"
    "gap (static a) = gap (static b)" "ignore (static a) = ignore (static b)"
    "is_frame (static a) = is_frame (static b)" "order (static a) = order (static b)"
    "ele_tree (static a) = ele_tree (static b)" "pre_ele (static a) = pre_ele (static b)"
    "frame (static a) = frame (static b)" "driver (static a) = driver (static b)"
    using assms by simp_all
  then show "name a = name b" "pattern a = pattern b" "by_strategy a = by_strategy b"
    "timeout a = timeout b" "gap a = gap b" "ignore a = ignore b" "is_frame a = is_frame b"
    "order a = order b" "ele_tree a = ele_tree b" "pre_ele a = pre_ele b" "frame a = frame b"
    "driver a = driver b"
    by (simp_all add: static_def)
qed

lemma until_timeout:
  assumes "\<forall>a \<in> set ps. a = Matches [] \<or> (\<exists>x \<in> set ig. a = Throws x)"
  shows "until ig ps = Inl TimeoutException"
  using assms by (induction ig ps rule: until.induct) auto

lemma until_nonempty: "until ig ps = Inr hs \<Longrightarrow> hs \<noteq> []"
  by (induction ig ps rule: until.induct) (auto split: if_splits)

lemma wait_for_never_timeout: "wait_for sc r w \<noteq> (Inl TimeoutException, w')"
  by (auto simp: wait_for_def Let_def split: sum.splits)

lemma wait_for_static:
  assumes "wait_for sc r w = (res, w')"
  shows "static (objs w' x) = static (objs w x)" "switched_to w' = switched_to w"
    "fresh w' = fresh w"
  using assms by (auto simp: wait_for_def Let_def split: sum.splits if_splits)


lemma wait_for_result:
  assumes "wait_for sc r w = (Inr (Some res), w')"
  shows "\<exists>hs. hs \<noteq> [] \<and> res = Handles hs \<and> eles (objs w' r) = Some hs"
  using assms by (auto simp: wait_for_def Let_def until_nonempty split: sum.splits if_splits)

lemma wait_for_timeout:
  assumes "waits w = (d, a, as) # rest"
    and "\<forall>p \<in> set (a # as). p = Matches [] \<or> (\<exists>x \<in> set (ignore (objs w r)). p = Throws x)"
  shows "wait_for sc r w =
           (Inr None, w\<lparr> waits := rest, now := now w + d,
              calls := calls w @ [FindElements sc (by_strategy (objs w r)) (pattern (objs w r))] \<rparr>)"
proof -
  have "until (ignore (objs w r)) (a # as) = Inl TimeoutException"
    by (rule until_timeout) (use assms(2) in blast)
  then show ?thesis using assms(1) by (simp add: wait_for_def Let_def)
qed

lemma never_timeout_aux:
  "(\<forall>src r w w'. PageObject_find n src r w \<noteq> Some (Inl TimeoutException, w'))
   \<and> (\<forall>r w w'. temp_pre_ele n r w \<noteq> Some (Inl TimeoutException, w'))
   \<and> (\<forall>r w w'. PageObject_ele n r w \<noteq> Some (Inl TimeoutException, w'))"
proof (induction n)
  case 0
  show ?case by simp
next
  case (Suc n)
  then have IH:
    "\<And>src r w w'. PageObject_find n src r w \<noteq> Some (Inl TimeoutException, w')"
    "\<And>r w w'. PageObject_ele n r w \<noteq> Some (Inl TimeoutException, w')"
    by blast+
  have T: "temp_pre_ele (Suc n) r w \<noteq> Some (Inl TimeoutException, w')" for r w w'
    by (auto simp: IH split: if_splits option.splits sum.splits prod.splits)
  have F: "PageObject_find (Suc n) src r w \<noteq> Some (Inl TimeoutException, w')" for src r w w'
    by (auto simp: Let_def wait_for_never_timeout IH T simp del: temp_pre_ele.simps
        split: if_splits option.splits sum.splits prod.splits)
  have E: "PageObject_ele (Suc n) r w \<noteq> Some (Inl TimeoutException, w')" for r w w'
    by (auto simp: Let_def getitem_def IH split: if_splits option.splits sum.splits prod.splits)
  from F T E show ?case by blast
qed

lemma static_aux:
  "(\<forall>src r w res w'. PageObject_find n src r w = Some (res, w') \<longrightarrow>
       (\<forall>x. static (objs w' x) = static (objs w x)) \<and> switched_to w' = switched_to w)
   \<and> (\<forall>r w res w'. temp_pre_ele n r w = Some (res, w') \<longrightarrow>
       (\<forall>x. static (objs w' x) = static (objs w x)) \<and> switched_to w' = switched_to w)
   \<and> (\<forall>r w res w'. PageObject_ele n r w = Some (res, w') \<longrightarrow>
       (\<forall>x. static (objs w' x) = static (objs w x)) \<and> switched_to w' = switched_to w)"
proof (induction n)
  case 0
  show ?case by simp
next
  case (Suc n)
  then have IHF: "\<And>src r w res w'. PageObject_find n src r w = Some (res, w') \<Longrightarrow>
       (\<forall>x. static (objs w' x) = static (objs w x)) \<and> switched_to w' = switched_to w"
    and IHE: "\<And>r w res w'. PageObject_ele n r w = Some (res, w') \<Longrightarrow>
       (\<forall>x. static (objs w' x) = static (objs w x)) \<and> switched_to w' = switched_to w"
    by blast+
  have T: "(\<forall>x. static (objs w' x) = static (objs w x)) \<and> switched_to w' = switched_to w"
    if "temp_pre_ele (Suc n) r w = Some (res, w')" for r w res w'
  proof (cases "pre_ele (objs w r)")
    case None
    with that show ?thesis by simp
  next
    case (Some p)
    show ?thesis
    proof (cases "is_frame (objs w p)")
      case True
      with that Some show ?thesis by simp
    next
      case False
      with that Some obtain a w1 where f: "PageObject_find n '''' p w = Some (a, w1)"
        by (cases "PageObject_find n '''' p w") auto
      note s1 = IHF[OF f]
      show ?thesis
      proof (cases a)
        case (Inl x)
        with that Some False f s1 show ?thesis by simp
      next
        case (Inr v)
        show ?thesis
        proof (cases v)
          case None
          with that Some False f s1 Inr show ?thesis by simp
        next
          case (Some u)
          with that \<open>pre_ele (objs w r) = Some p\<close> False f Inr
          obtain b w2 where e: "PageObject_ele n p w1 = Some (b, w2)" and "w' = w2"
            by (cases "PageObject_ele n p w1")
              (auto split: sum.splits option.splits)
          with IHE[OF e] s1 show ?thesis by simp
        qed
      qed
    qed
  qed
  have F: "(\<forall>x. static (objs w' x) = static (objs w x)) \<and> switched_to w' = switched_to w"
    if run: "PageObject_find (Suc n) src r w = Some (res, w')" for src r w res w'
  proof -
    let ?wc = "upd r (\<lambda>obj. obj\<lparr> eles := None \<rparr>) w"
    have w0: "(\<forall>x. static (objs ?wc x) = static (objs w x)) \<and> switched_to ?wc = switched_to w"
      by simp
    consider (err) "w' = w"
      | (hit) b where "PageObject_ele n r w = Some (b, w')"
      | (fresh_err) b where "temp_pre_ele (Suc n) r ?wc = Some (b, w')"
      | (fresh) sc w1 where "temp_pre_ele (Suc n) r ?wc = Some (Inr sc, w1)"
          "wait_for sc r w1 = (res, w')"
      using run
      by (auto simp: Let_def simp del: temp_pre_ele.simps
          split: if_splits option.splits sum.splits prod.splits)
    then show ?thesis
    proof cases
      case err
      then show ?thesis by simp
    next
      case hit
      then show ?thesis using IHE by blast
    next
      case fresh_err
      from T[OF this] w0 show ?thesis by simp
    next
      case fresh
      from T[OF fresh(1)] w0 wait_for_static[OF fresh(2)] show ?thesis by simp
    qed
  qed
  have E: "(\<forall>x. static (objs w' x) = static (objs w x)) \<and> switched_to w' = switched_to w"
    if "PageObject_ele (Suc n) r w = Some (res, w')" for r w res w'
  proof -
    from that obtain a where "PageObject_find n ''ele'' r w = Some (a, w')"
      by (auto split: if_splits option.splits sum.splits prod.splits)
    then show ?thesis by (rule IHF)
  qed
  from F T E show ?case by blast
qed

lemma find_never_timeout: "PageObject_find n src r w \<noteq> Some (Inl TimeoutException, w')"
  using never_timeout_aux by blast

lemma find_static:
  assumes "PageObject_find n src r w = Some (res, w')"
  shows "static (objs w' x) = static (objs w x)" "switched_to w' = switched_to w"
  using static_aux assms by blast+

lemma temp_pre_ele_static:
  assumes "temp_pre_ele n r w = Some (res, w')"
  shows "static (objs w' x) = static (objs w x)" "switched_to w' = switched_to w"
  using static_aux assms by blast+

lemma ele_static:
  assumes "PageObject_ele n r w = Some (res, w')"
  shows "static (objs w' x) = static (objs w x)" "switched_to w' = switched_to w"
  using static_aux assms by blast+

lemma find_cached_ele:
  assumes "driver (objs w r) \<noteq> None" "name (objs w r) \<noteq> None" "cached w r"
  shows "PageObject_find (Suc n) ''ele'' r w = Some (Inr (map_option Handles (eles (objs w r))), w)"
  using assms by (auto simp: cached_def Let_def)

lemma ele_cached:
  assumes "driver (objs w r) \<noteq> None" "name (objs w r) \<noteq> None" "cached w r"
    and "eles (objs w r) = Some xs"
  shows "PageObject_ele (Suc (Suc n)) r w =
           Some (if order (objs w r) < int (length xs)
                 then (case getitem xs (order (objs w r)) of
                         Inl x \<Rightarrow> Inl x | Inr h \<Rightarrow> Inr (Some h))
                 else Inr None, w)"
  using find_cached_ele[OF assms(1-3), of n] assms(4)
  by (auto simp: PageObject_count_def simp del: PageObject_find.simps split: sum.splits)


lemma find_fresh:
  assumes "driver (objs w r) \<noteq> None" "name (objs w r) \<noteq> None" "\<not> cached w r"
  shows "PageObject_find (Suc n) src r w =
           (case temp_pre_ele (Suc n) r (upd r (\<lambda>obj. obj\<lparr> eles := None \<rparr>) w) of
              None \<Rightarrow> None
            | Some (Inl x, w1) \<Rightarrow> Some (Inl x, w1)
            | Some (Inr sc, w1) \<Rightarrow> Some (wait_for sc r w1))"
  using assms unfolding cached_def
  by (subst PageObject_find.simps) (auto simp: Let_def simp del: temp_pre_ele.simps)

lemma temp_pre_ele_session:
  assumes "pre_ele (objs w r) = None \<or> (\<exists>p. pre_ele (objs w r) = Some p \<and> is_frame (objs w p))"
  shows "temp_pre_ele (Suc n) r w = Some (Inr Session, w)"
  using assms by auto

lemma find_result:
  assumes "PageObject_find n src r w = Some (Inr (Some res), w')"
  shows "(\<exists>hs. res = Handles hs \<and> eles (objs w' r) = Some hs \<and> (\<not> cached w r \<longrightarrow> hs \<noteq> []))
         \<or> (\<exists>h. res = Handle h \<and> cached w r \<and> src \<noteq> ''ele'')"
proof (cases n)
  case 0
  with assms show ?thesis by simp
next
  case (Suc m)
  from assms Suc have d: "driver (objs w r) \<noteq> None" "name (objs w r) \<noteq> None"
    by (auto simp: Let_def simp del: temp_pre_ele.simps split: if_splits)
  show ?thesis
  proof (cases "cached w r")
    case True
    with assms Suc d show ?thesis
      by (auto simp: cached_def Let_def simp del: temp_pre_ele.simps PageObject_ele.simps
          split: if_splits option.splits sum.splits prod.splits)
  next
    case False
    from assms[unfolded Suc find_fresh[OF d False]]
    obtain sc w1 where "wait_for sc r w1 = (Inr (Some res), w')"
      by (auto split: option.splits sum.splits prod.splits)
    from wait_for_result[OF this] False show ?thesis by blast
  qed
qed

lemma find_ele_result:
  assumes "PageObject_find n ''ele'' r w = Some (Inr (Some res), w')"
  shows "\<exists>hs. res = Handles hs \<and> eles (objs w' r) = Some hs"
  using find_result[OF assms] by auto

lemmas world_simps =
  cached_world_def waiting_world_def root_obj_def DEFAULT_ATTRIBUTE_def cached_def
  Let_def wait_for_def getitem_def upd_def native_def PageObject_count_def

text \<open>
  C6. When the resolution made by the accessor \<^verbatim>\<open>ele\<close> succeeds with a match list whose
  length is at most the descriptor's \<^verbatim>\<open>order\<close>, the accessor returns \<^verbatim>\<open>None\<close>; it does
  not raise.
\<close>

theorem C6_order_beyond_matches_is_None:
  assumes "PageObject_find n ''ele'' r w = Some (Inr (Some (Handles hs)), w')"
    and "int (length hs) \<le> order (objs w r)"
  shows "PageObject_ele (Suc n) r w = Some (Inr None, w')"
proof -
  from find_ele_result[OF assms(1)] have "eles (objs w' r) = Some hs" by simp
  moreover have "order (objs w' r) = order (objs w r)"
    by (rule static_fields(8)[OF find_static(1)[OF assms(1)]])
  ultimately show ?thesis using assms by (simp add: PageObject_count_def)
qed

text \<open>
  C6, at a root descriptor with \<^verbatim>\<open>order = 2\<close> whose wait finds the single element 7 on
  its second poll.
\<close>

theorem C6_order_beyond_matches_is_None_witness:
  "\<exists>w'. PageObject_find 1 ''ele'' 0 (waiting_world 1 (Matches []) [Matches [7]] 2)
           = Some (Inr (Some (Handles [7])), w')
       \<and> int (length [7::nat]) \<le> order (objs (waiting_world 1 (Matches []) [Matches [7]] 2) 0)
       \<and> PageObject_ele (Suc 1) 0 (waiting_world 1 (Matches []) [Matches [7]] 2)
           = Some (Inr None, w')"
proof -
  let ?w = "waiting_world 1 (Matches []) [Matches [7]] 2"
  have "\<exists>w'. PageObject_find 1 ''ele'' 0 ?w = Some (Inr (Some (Handles [7])), w')"
    by (simp add: world_simps)
  then obtain w' where f: "PageObject_find 1 ''ele'' 0 ?w = Some (Inr (Some (Handles [7])), w')"
    by blast
  have o: "int (length [7::nat]) \<le> order (objs ?w 0)" by (simp add: world_simps)
  from C6_order_beyond_matches_is_None[OF f o] f o show ?thesis by blast
qed

text \<open>
  C10 as stated fails: with \<^verbatim>\<open>order = -2\<close> and the one match 7 the resolution succeeds
  and the bounds check passes, but the accessor raises \<^verbatim>\<open>IndexError\<close>; it returns no
  match.
\<close>

theorem C10_counterexample:
  "order (objs (cached_world [7] (- 2)) 0) < 0
   \<and> PageObject_find 1 ''ele'' 0 (cached_world [7] (- 2))
       = Some (Inr (Some (Handles [7])), cached_world [7] (- 2))
   \<and> order (objs (cached_world [7] (- 2)) 0) < PageObject_count (objs (cached_world [7] (- 2)) 0)
   \<and> PageObject_ele 2 0 (cached_world [7] (- 2)) = Some (Inl IndexError, cached_world [7] (- 2))"
proof -
  have "driver (objs (cached_world [7] (- 2)) 0) \<noteq> None"
    "name (objs (cached_world [7] (- 2)) 0) \<noteq> None" "cached (cached_world [7] (- 2)) 0"
    "eles (objs (cached_world [7] (- 2)) 0) = Some [7]"
    "order (objs (cached_world [7] (- 2)) 0) = - 2"
    by (simp_all add: world_simps)
  then show ?thesis
    using find_cached_ele[of "cached_world [7] (- 2)" 0 0]
      ele_cached[of "cached_world [7] (- 2)" 0 "[7]" 0]
    by (simp add: getitem_def PageObject_count_def numeral_2_eq_2
        del: PageObject_find.simps PageObject_ele.simps)
qed

text \<open>
  C10, amended. For a negative \<^verbatim>\<open>order\<close> and a successful resolution the bounds check
  \<^verbatim>\<open>order < count\<close> passes; when moreover \<^verbatim>\<open>order\<close> is at least minus the number of
  matches, the accessor returns the match counted from the end of the list.
\<close>

theorem C10_amended:
  assumes "PageObject_find n ''ele'' r w = Some (Inr (Some (Handles hs)), w')"
    and "order (objs w r) < 0"
  shows "order (objs w' r) < PageObject_count (objs w' r)
     \<and> (- int (length hs) \<le> order (objs w r) \<longrightarrow>
          PageObject_ele (Suc n) r w =
            Some (Inr (Some (hs ! nat (int (length hs) + order (objs w r)))), w'))"
proof -
  from find_ele_result[OF assms(1)] have e: "eles (objs w' r) = Some hs" by simp
  have o: "order (objs w' r) = order (objs w r)"
    by (rule static_fields(8)[OF find_static(1)[OF assms(1)]])
  from e o assms show ?thesis by (simp add: PageObject_count_def getitem_def)
qed

text \<open>C10 amended, at \<^verbatim>\<open>order = -1\<close> and the matches 7, 8, 9: the accessor returns 9.\<close>

theorem C10_amended_witness:
  "PageObject_find 1 ''ele'' 0 (cached_world [7, 8, 9] (- 1))
       = Some (Inr (Some (Handles [7, 8, 9])), cached_world [7, 8, 9] (- 1))
   \<and> order (objs (cached_world [7, 8, 9] (- 1)) 0) < 0
   \<and> - int (length [7, 8, 9 :: nat]) \<le> order (objs (cached_world [7, 8, 9] (- 1)) 0)
   \<and> PageObject_ele (Suc 1) 0 (cached_world [7, 8, 9] (- 1))
       = Some (Inr (Some 9), cached_world [7, 8, 9] (- 1))"
proof -
  let ?w = "cached_world [7, 8, 9] (- 1)"
  have f: "PageObject_find 1 ''ele'' 0 ?w = Some (Inr (Some (Handles [7, 8, 9])), ?w)"
    by (simp add: world_simps)
  have o: "order (objs ?w 0) < 0" "order (objs ?w 0) = - 1" by (simp_all add: world_simps)
  from C10_amended[OF f o(1)] f o show ?thesis
    by (simp del: PageObject_find.simps PageObject_ele.simps)
qed




text \<open>
  C4. \<^verbatim>\<open>find\<close> never lets a \<^verbatim>\<open>TimeoutException\<close> out. When a descriptor with a driver is
  not answered from the cache, its search scope has been determined, and every poll of
  its wait, however many there are, gives no element or a failure of an ignored kind,
  \<^verbatim>\<open>find\<close> returns \<^verbatim>\<open>None\<close>. The scope of a descriptor without a parent, or with a
  parent marked as a frame, is the session.
\<close>

theorem C4_timeout_yields_None:
  "PageObject_find n src r w \<noteq> Some (Inl TimeoutException, wx)
   \<and> (driver (objs w r) \<noteq> None \<and> name (objs w r) \<noteq> None \<and> \<not> cached w r
        \<and> temp_pre_ele (Suc n) r (upd r (\<lambda>obj. obj\<lparr> eles := None \<rparr>) w) = Some (Inr sc, ws)
        \<and> waits ws = (d, a, as) # rest
        \<and> (\<forall>p \<in> set (a # as). p = Matches [] \<or> (\<exists>x \<in> set (ignore (objs w r)). p = Throws x))
      \<longrightarrow> (\<exists>w2. PageObject_find (Suc n) src r w = Some (Inr None, w2)))
   \<and> ((pre_ele (objs w r) = None \<or> (\<exists>p. pre_ele (objs w r) = Some p \<and> is_frame (objs w p)))
      \<longrightarrow> temp_pre_ele (Suc n) r (upd r (\<lambda>obj. obj\<lparr> eles := None \<rparr>) w)
            = Some (Inr Session, upd r (\<lambda>obj. obj\<lparr> eles := None \<rparr>) w))"
proof (intro conjI impI)
  show "PageObject_find n src r w \<noteq> Some (Inl TimeoutException, wx)"
    by (rule find_never_timeout)
next
  let ?wc = "upd r (\<lambda>obj. obj\<lparr> eles := None \<rparr>) w"
  assume a: "driver (objs w r) \<noteq> None \<and> name (objs w r) \<noteq> None \<and> \<not> cached w r
        \<and> temp_pre_ele (Suc n) r ?wc = Some (Inr sc, ws)
        \<and> waits ws = (d, a, as) # rest
        \<and> (\<forall>p \<in> set (a # as). p = Matches [] \<or> (\<exists>x \<in> set (ignore (objs w r)). p = Throws x))"
  then have t: "temp_pre_ele (Suc n) r ?wc = Some (Inr sc, ws)" by blast
  have st: "static (objs ws r) = static (objs w r)"
    using temp_pre_ele_static(1)[OF t, of r] by simp
  have ig: "ignore (objs ws r) = ignore (objs w r)"
    by (rule static_fields(6)[OF st])
  from a ig have poll: "\<forall>p \<in> set (a # as). p = Matches []
      \<or> (\<exists>x \<in> set (ignore (objs ws r)). p = Throws x)" by simp
  from a have wt: "waits ws = (d, a, as) # rest" by blast
  have "PageObject_find (Suc n) src r w = Some (wait_for sc r ws)"
    using a find_fresh[of w r n src] by (simp del: temp_pre_ele.simps PageObject_find.simps)
  with wait_for_timeout[OF wt poll, of sc]
  show "\<exists>w2. PageObject_find (Suc n) src r w = Some (Inr None, w2)"
    by (simp del: temp_pre_ele.simps PageObject_find.simps)
next
  assume "pre_ele (objs w r) = None \<or> (\<exists>p. pre_ele (objs w r) = Some p \<and> is_frame (objs w p))"
  then show "temp_pre_ele (Suc n) r (upd r (\<lambda>obj. obj\<lparr> eles := None \<rparr>) w)
            = Some (Inr Session, upd r (\<lambda>obj. obj\<lparr> eles := None \<rparr>) w)"
    by (intro temp_pre_ele_session) auto
qed

text \<open>
  C4, at a root descriptor whose wait polls three times: nothing, an ignored
  \<^verbatim>\<open>NoSuchElementException\<close>, nothing.
\<close>

theorem C4_timeout_yields_None_witness:
  "driver (objs (waiting_world 5 (Matches []) [Throws NoSuchElementException, Matches []] 0) 0) \<noteq> None
   \<and> name (objs (waiting_world 5 (Matches []) [Throws NoSuchElementException, Matches []] 0) 0) \<noteq> None
   \<and> \<not> cached (waiting_world 5 (Matches []) [Throws NoSuchElementException, Matches []] 0) 0
   \<and> pre_ele (objs (waiting_world 5 (Matches []) [Throws NoSuchElementException, Matches []] 0) 0) = None
   \<and> (\<exists>w2. PageObject_find (Suc 0) '''' 0
              (waiting_world 5 (Matches []) [Throws NoSuchElementException, Matches []] 0)
            = Some (Inr None, w2))"
proof -
  let ?w = "waiting_world 5 (Matches []) [Throws NoSuchElementException, Matches []] 0"
  let ?wc = "upd 0 (\<lambda>obj. obj\<lparr> eles := None \<rparr>) ?w"
  have h: "driver (objs ?w 0) \<noteq> None" "name (objs ?w 0) \<noteq> None" "\<not> cached ?w 0"
    "pre_ele (objs ?w 0) = None"
    by (simp_all add: world_simps)
  have s: "waits ?wc = (5, Matches [], [Throws NoSuchElementException, Matches []]) # []"
    by (simp add: world_simps)
  have p: "\<forall>p \<in> set (Matches [] # [Throws NoSuchElementException, Matches []]).
             p = Matches [] \<or> (\<exists>x \<in> set (ignore (objs ?w 0)). p = Throws x)"
    by (simp add: world_simps)
  note T = C4_timeout_yields_None[where n = 0 and src = "''''" and r = 0 and w = ?w
      and sc = Session and ws = ?wc and d = 5 and a = "Matches []"
      and as = "[Throws NoSuchElementException, Matches []]" and rest = "[]"]
  from T h(4) have "temp_pre_ele (Suc 0) 0 ?wc = Some (Inr Session, ?wc)" by blast
  with T h s p have "\<exists>w2. PageObject_find (Suc 0) '''' 0 ?w = Some (Inr None, w2)" by blast
  with h show ?thesis by blast
qed




text \<open>
  C1, amended. For a descriptor whose frame is set, resolves, and is switched into: when
  the wrapped action returns, \<^verbatim>\<open>switch_frame\<close> switches back to the default content and
  returns the action's value; when the wrapped action raises, the exception is the
  result and the world is as the action left it, with no switch back.
\<close>

theorem C1_amended:
  assumes "frame (objs w r) = Some f"
    and "PageObject_find n '''' f w = Some (Inr (Some res), wa)"
    and "eles (objs wa f) = Some (h # hs)"
  shows "(\<forall>ret wb.
            func n r ((native (SwitchToFrame h) wa)\<lparr> switched_to := Some h \<rparr>) = Some (Inr ret, wb) \<longrightarrow>
              (\<exists>wc. switch_frame func n r w = Some (Inr ret, wc) \<and> switched_to wc = None
                    \<and> calls wc = calls wb @ [SwitchToDefaultContent]))
       \<and> (\<forall>x wb.
            func n r ((native (SwitchToFrame h) wa)\<lparr> switched_to := Some h \<rparr>) = Some (Inl x, wb) \<longrightarrow>
              switch_frame func n r w = Some (Inl x, wb))"
  using assms by (auto simp: switch_frame_def getitem_def)

lemmas action_simps =
  PageObject_click_def require_driver_def switch_frame_def highlight_def screenshot_def
  click_body_def framed_world_def button_def frame_box_def

text \<open>
  C1 as stated fails: a click on the button inside the frame, when the button is not
  found, raises \<^verbatim>\<open>AttributeError\<close> inside the wrapped action; the session stays
  switched into the frame element 7 and \<^verbatim>\<open>default_content\<close> is never called.
\<close>

theorem C1_counterexample:
  "frame (objs (framed_world (Matches [])) 1) = Some 0
   \<and> map_option fst (PageObject_click 5 1 (framed_world (Matches [])))
       = Some (Inl (AttributeError ''get_attribute''))
   \<and> map_option (switched_to \<circ> snd) (PageObject_click 5 1 (framed_world (Matches [])))
       = Some (Some 7)
   \<and> map_option (calls \<circ> snd) (PageObject_click 5 1 (framed_world (Matches [])))
       = Some [FindElements Session ''tag name'' (Some ''iframe''), SwitchToFrame 7,
               FindElements Session ''css selector'' (Some ''button'')]"
  by (simp add: action_simps world_simps eval_nat_numeral)

text \<open>
  C1 amended, at the button inside the frame: once with the button found (the click
  returns and the session is back at the default content), once with the button not
  found (the action raises).
\<close>

theorem C1_amended_witness:
  "frame (objs (framed_world (Matches [9])) 1) = Some 0
   \<and> (\<exists>res wa. PageObject_find 4 '''' 0 (framed_world (Matches [9])) = Some (Inr (Some res), wa)
        \<and> eles (objs wa 0) = Some [7]
        \<and> (\<exists>wb. highlight (screenshot click_body) 4 1
                    ((native (SwitchToFrame 7) wa)\<lparr> switched_to := Some 7 \<rparr>) = Some (Inr (), wb)
             \<and> (\<exists>wc. switch_frame (highlight (screenshot click_body)) 4 1
                         (framed_world (Matches [9])) = Some (Inr (), wc)
                   \<and> switched_to wc = None
                   \<and> calls wc = calls wb @ [SwitchToDefaultContent])))
   \<and> (\<exists>res wa. PageObject_find 4 '''' 0 (framed_world (Matches [])) = Some (Inr (Some res), wa)
        \<and> eles (objs wa 0) = Some [7]
        \<and> (\<exists>wb. highlight (screenshot click_body) 4 1
                    ((native (SwitchToFrame 7) wa)\<lparr> switched_to := Some 7 \<rparr>)
                  = Some (Inl (AttributeError ''get_attribute''), wb)
             \<and> switch_frame (highlight (screenshot click_body)) 4 1
                    (framed_world (Matches [])) = Some (Inl (AttributeError ''get_attribute''), wb)))"
proof -
  let ?func = "highlight (screenshot click_body) :: unit action"
  have ok: "\<exists>res wa. PageObject_find 4 '''' 0 (framed_world (Matches [9])) = Some (Inr (Some res), wa)
        \<and> eles (objs wa 0) = Some [7]
        \<and> (\<exists>wb. ?func 4 1 ((native (SwitchToFrame 7) wa)\<lparr> switched_to := Some 7 \<rparr>) = Some (Inr (), wb)
             \<and> (\<exists>wc. switch_frame ?func 4 1 (framed_world (Matches [9])) = Some (Inr (), wc)
                   \<and> switched_to wc = None
                   \<and> calls wc = calls wb @ [SwitchToDefaultContent]))"
  proof -
    let ?W = "framed_world (Matches [9])"
    define wa where "wa = snd (the (PageObject_find 4 '''' 0 ?W))"
    have fr: "frame (objs ?W 1) = Some 0" by (simp add: action_simps world_simps)
    have f: "PageObject_find 4 '''' 0 ?W = Some (Inr (Some (Handles [7])), wa)"
      unfolding wa_def by (simp add: action_simps world_simps eval_nat_numeral)
    have e: "eles (objs wa 0) = Some (7 # [])"
      unfolding wa_def by (simp add: action_simps world_simps eval_nat_numeral)
    have "\<exists>wb. ?func 4 1 ((native (SwitchToFrame 7) wa)\<lparr> switched_to := Some 7 \<rparr>) = Some (Inr (), wb)"
      unfolding wa_def by (simp add: action_simps world_simps eval_nat_numeral)
    then obtain wb where
      b: "?func 4 1 ((native (SwitchToFrame 7) wa)\<lparr> switched_to := Some 7 \<rparr>) = Some (Inr (), wb)"
      by blast
    from C1_amended[OF fr f e, of ?func] b
    have "\<exists>wc. switch_frame ?func 4 1 ?W = Some (Inr (), wc) \<and> switched_to wc = None
        \<and> calls wc = calls wb @ [SwitchToDefaultContent]"
      by blast
    with f e b show ?thesis by blast
  qed
  have bad: "\<exists>res wa. PageObject_find 4 '''' 0 (framed_world (Matches [])) = Some (Inr (Some res), wa)
        \<and> eles (objs wa 0) = Some [7]
        \<and> (\<exists>wb. ?func 4 1 ((native (SwitchToFrame 7) wa)\<lparr> switched_to := Some 7 \<rparr>)
                  = Some (Inl (AttributeError ''get_attribute''), wb)
             \<and> switch_frame ?func 4 1 (framed_world (Matches []))
                  = Some (Inl (AttributeError ''get_attribute''), wb))"
  proof -
    let ?W = "framed_world (Matches [])"
    define wa where "wa = snd (the (PageObject_find 4 '''' 0 ?W))"
    have fr: "frame (objs ?W 1) = Some 0" by (simp add: action_simps world_simps)
    have f: "PageObject_find 4 '''' 0 ?W = Some (Inr (Some (Handles [7])), wa)"
      unfolding wa_def by (simp add: action_simps world_simps eval_nat_numeral)
    have e: "eles (objs wa 0) = Some (7 # [])"
      unfolding wa_def by (simp add: action_simps world_simps eval_nat_numeral)
    have "\<exists>wb. ?func 4 1 ((native (SwitchToFrame 7) wa)\<lparr> switched_to := Some 7 \<rparr>)
            = Some (Inl (AttributeError ''get_attribute''), wb)"
      unfolding wa_def by (simp add: action_simps world_simps eval_nat_numeral)
    then obtain wb where
      b: "?func 4 1 ((native (SwitchToFrame 7) wa)\<lparr> switched_to := Some 7 \<rparr>)
            = Some (Inl (AttributeError ''get_attribute''), wb)"
      by blast
    from C1_amended[OF fr f e, of ?func] b
    have "switch_frame ?func 4 1 ?W = Some (Inl (AttributeError ''get_attribute''), wb)"
      by blast
    with f e b show ?thesis by blast
  qed
  have "frame (objs (framed_world (Matches [9])) 1) = Some 0"
    by (simp add: action_simps world_simps)
  with ok bad show ?thesis by blast
qed

section \<open>Resolution returns\<close>

lemma ordered_static:
  fixes w w' :: world
  assumes "ordered w" and "\<And>x. static (objs w' x) = static (objs w x)"
  shows "ordered w'"
  unfolding ordered_def
proof (intro allI impI)
  fix r p
  assume "pre_ele (objs w' r) = Some p"
  moreover have "pre_ele (objs w' r) = pre_ele (objs w r)"
    by (rule static_fields(10)[OF assms(2)])
  ultimately show "p < r" using assms(1) by (simp add: ordered_def)
qed

lemma not_None_pair:
  assumes "x \<noteq> None"
  obtains a b where "x = Some (a, b)"
  using assms by (cases x) auto

lemma temp_pre_ele_step:
  assumes "pre_ele (objs w r) = Some p"
    and "PageObject_find m [] p w = Some (a, wa)"
    and "PageObject_ele m p wa = Some (c, wb)"
  shows "temp_pre_ele (Suc m) r w \<noteq> None"
proof (cases a)
  case (Inl x)
  with assms show ?thesis by simp
next
  case (Inr v)
  show ?thesis
  proof (cases v)
    case None
    with Inr assms show ?thesis by simp
  next
    case (Some u)
    with Inr assms show ?thesis by (cases c) (simp_all split: option.splits)
  qed
qed

lemma find_step:
  assumes "temp_pre_ele (Suc m) r (upd r (\<lambda>obj. obj\<lparr> eles := None \<rparr>) w) = Some (a, wa)"
    and "PageObject_ele m r w = Some (c, wb) \<or> src = ''ele''"
  shows "PageObject_find (Suc m) src r w \<noteq> None"
proof -
  have "PageObject_find (Suc m) src r w =
     (let obj = objs w r in
      if driver obj = None then Some (Inl (AttributeError ''driver''), w)
      else if name obj = None then Some (Inl (AttributeError ''eles''), w)
      else if eles obj \<noteq> None \<and> now w - last_found obj < gap obj then
        (if src = ''ele'' then Some (Inr (map_option Handles (eles obj)), w)
         else
           (case PageObject_ele m r w of
              None \<Rightarrow> None
            | Some (Inl x, w') \<Rightarrow> Some (Inl x, w')
            | Some (Inr e, w') \<Rightarrow> Some (Inr (map_option Handle e), w')))
      else
        (case temp_pre_ele (Suc m) r (upd r (\<lambda>obj. obj\<lparr> eles := None \<rparr>) w) of
           None \<Rightarrow> None
         | Some (Inl x, w1) \<Rightarrow> Some (Inl x, w1)
         | Some (Inr sc, w1) \<Rightarrow> Some (wait_for sc r w1)))"
    by (rule PageObject_find.simps)
  also have "\<dots> \<noteq> None"
    using assms unfolding Let_def
    by (cases a; cases c) (auto simp del: temp_pre_ele.simps PageObject_find.simps)
  finally show ?thesis .
qed

lemma ele_step:
  assumes "PageObject_find m ''ele'' r w = Some (a, wa)"
  shows "PageObject_ele (Suc m) r w \<noteq> None"
  using assms by (cases a) (auto split: option.splits sum.splits)

lemma enough_fuel_aux:
  "ordered w \<Longrightarrow>
     (3 * r + 1 \<le> n \<longrightarrow> temp_pre_ele n r w \<noteq> None)
   \<and> (3 * r + 1 \<le> n \<longrightarrow> PageObject_find n ''ele'' r w \<noteq> None)
   \<and> (3 * r + 2 \<le> n \<longrightarrow> PageObject_ele n r w \<noteq> None)
   \<and> (3 * r + 3 \<le> n \<longrightarrow> PageObject_find n src r w \<noteq> None)"
proof (induction r arbitrary: n w src rule: less_induct)
  case (less r)
  have T: "temp_pre_ele k r v \<noteq> None" if k: "3 * r + 1 \<le> k" and o: "ordered v" for k v
  proof -
    from k obtain m where m: "k = Suc m" "3 * r \<le> m" by (cases k) auto
    show ?thesis
    proof (cases "pre_ele (objs v r)")
      case None
      then show ?thesis unfolding m(1) by simp
    next
      case (Some p)
      with o have pr: "p < r" by (simp add: ordered_def)
      then have b: "3 * p + 3 \<le> m" "3 * p + 2 \<le> m" using m(2) by linarith+
      from less.IH[OF pr o, of m "[]"] b(1)
      have "PageObject_find m [] p v \<noteq> None" by blast
      then obtain a va where f: "PageObject_find m [] p v = Some (a, va)"
        by (rule not_None_pair)
      have "ordered va" by (rule ordered_static[OF o find_static(1)[OF f]])
      from less.IH[OF pr this, of m "[]"] b(2)
      have "PageObject_ele m p va \<noteq> None" by blast
      then obtain c vb where e: "PageObject_ele m p va = Some (c, vb)"
        by (rule not_None_pair)
      show ?thesis unfolding m(1) by (rule temp_pre_ele_step[OF Some f e])
    qed
  qed
  have cl: "ordered (upd r (\<lambda>obj. obj\<lparr> eles := None \<rparr>) v)" if "ordered v" for v :: world
    by (rule ordered_static[OF that]) simp
  have Fe: "PageObject_find k ''ele'' r v \<noteq> None" if k: "3 * r + 1 \<le> k" and o: "ordered v"
    for k v
  proof -
    from k obtain m where m: "k = Suc m" by (cases k) auto
    from T[OF k cl[OF o]]
    obtain a va where "temp_pre_ele (Suc m) r (upd r (\<lambda>obj. obj\<lparr> eles := None \<rparr>) v) = Some (a, va)"
      unfolding m by (rule not_None_pair)
    then show ?thesis unfolding m by (rule find_step) simp
  qed
  have E: "PageObject_ele k r v \<noteq> None" if k: "3 * r + 2 \<le> k" and o: "ordered v" for k v
  proof -
    from k obtain m where m: "k = Suc m" "3 * r + 1 \<le> m" by (cases k) auto
    from Fe[OF m(2) o] obtain a va where "PageObject_find m ''ele'' r v = Some (a, va)"
      by (rule not_None_pair)
    then show ?thesis unfolding m(1) by (rule ele_step)
  qed
  have F: "PageObject_find k s r v \<noteq> None" if k: "3 * r + 3 \<le> k" and o: "ordered v"
    for k v s
  proof -
    from k obtain m where m: "k = Suc m" "3 * r + 2 \<le> m" by (cases k) auto
    have "3 * r + 1 \<le> Suc m" using m(2) by simp
    from T[OF this cl[OF o]]
    obtain a va where t: "temp_pre_ele (Suc m) r (upd r (\<lambda>obj. obj\<lparr> eles := None \<rparr>) v) = Some (a, va)"
      by (rule not_None_pair)
    from E[OF m(2) o] obtain c vb where e: "PageObject_ele m r v = Some (c, vb)"
      by (rule not_None_pair)
    from e have "PageObject_ele m r v = Some (c, vb) \<or> s = ''ele''" ..
    with t show ?thesis unfolding m(1) by (rule find_step)
  qed
  from T Fe E F \<open>ordered w\<close> show ?case by blast
qed

lemma init_untouched:
  "PageObject_init e d pre fr h = Inr (self, h') \<Longrightarrow>
     fresh h \<le> fresh h' \<and> (\<forall>r\<ge>fresh h'. objs h' r = objs h r)"
  and
  "init_ele_tree e kids parent ef (h::'a heap_scheme) = Inr (refs, h') \<Longrightarrow>
     parent < fresh h \<Longrightarrow>
     fresh h \<le> fresh h' \<and> (\<forall>r\<ge>fresh h'. objs h' r = objs h r)"
proof (induction e d pre fr h and e kids parent ef h arbitrary: self h' and refs h'
    rule: PageObject_init_init_ele_tree.induct)
  case (1 e pre fr h)
  then show ?case by auto
next
  case (2 e nm pat byv tmo gp ig isf ord tree rest pre fr h)
  define me where "me = fresh h"
  define pg where "pg = Page pat byv tmo gp ig isf ord tree"
  define h1 where
    "h1 = upd me (\<lambda>obj. obj\<lparr>name := Some nm, pre_ele := pre, frame := fr\<rparr>) (alloc h)"
  define ef where "ef = (if isf = Some True then Some me else fr)"
  have ok: "nm \<notin> set (INVALID_ELE_NAME e)" "pat \<noteq> None"
    "\<not> (case byv of None \<Rightarrow> False | Some b \<Rightarrow> b \<notin> set (BY_LIST e))"
    using "2.prems" by (auto simp: Let_def split: if_splits sum.splits)
  show ?case
  proof (cases tree)
    case None
    with "2.prems" ok have "self = me" "h' = upd me (merge_page pg) h1"
      by (auto simp: Let_def me_def pg_def h1_def)
    then show ?thesis by (auto simp: me_def h1_def)
  next
    case (Some kids)
    with "2.prems" ok have
      "(case init_ele_tree e kids me ef h1 of
          Inl x \<Rightarrow> Inl x
        | Inr (refs, h2) \<Rightarrow>
            Inr (me, upd me (\<lambda>obj. merge_page pg (obj\<lparr>ele_tree := Some refs\<rparr>)) h2))
       = Inr (self, h')"
      unfolding me_def pg_def h1_def ef_def
      by (auto simp: Let_def split: if_splits sum.splits)
    then obtain refs h2 where
      kids: "init_ele_tree e kids me ef h1 = Inr (refs, h2)" and
      res: "self = me" "h' = upd me (\<lambda>obj. merge_page pg (obj\<lparr>ele_tree := Some refs\<rparr>)) h2"
      by (auto split: sum.splits)
    have f1: "fresh h1 = Suc me" by (simp add: h1_def me_def)
    then have "me < fresh h1" by simp
    from "2.IH"[OF me_def refl refl ok h1_def Some ef_def kids this]
    have IH: "fresh h1 \<le> fresh h2" "\<forall>r\<ge>fresh h2. objs h2 r = objs h1 r" by auto
    from IH f1 res show ?thesis by (auto simp: h1_def me_def)
  qed
next
  case (3 e self ele_frame h)
  then show ?case by auto
next
  case (4 e ele pg others self ele_frame h)
  from "4.prems" obtain r h1 rs where
    one: "PageObject_init e [(ele, pg)] (Some self) ele_frame h = Inr (r, h1)" and
    rest: "init_ele_tree e others self ele_frame h1 = Inr (rs, h')"
    by (auto split: sum.splits)
  have A: "fresh h \<le> fresh h1" "\<forall>x\<ge>fresh h1. objs h1 x = objs h x"
    using "4.IH"(1)[OF one] by auto
  with "4.prems"(2) have "self < fresh h1" by simp
  from "4.IH"(2)[OF one refl rest this]
  have B: "fresh h1 \<le> fresh h'" "\<forall>x\<ge>fresh h'. objs h' x = objs h1 x" by auto
  from A B show ?case by auto
qed


text \<open>
  The constructor gives every object a parent that was allocated before it: a store in
  which parents lie at lower addresses stays so.
\<close>

theorem built_store_is_ordered:
  assumes built: "PageObject_init e d None None h = Inr (root, h')" and old: "ordered h"
  shows "ordered h'"
  unfolding ordered_def
proof (intro allI impI)
  fix r p
  assume p: "pre_ele (objs h' r) = Some p"
  note inv = init_inv(1)[OF built]
  note un = init_untouched(1)[OF built]
  consider "r < fresh h" | "r = fresh h" | "fresh h < r" "r < fresh h'" | "fresh h' \<le> r"
    by linarith
  then show "p < r"
  proof cases
    case 1
    with inv have "objs h' r = objs h r" by blast
    with p old show ?thesis by (simp add: ordered_def)
  next
    case 2
    have "pre_ele (objs h' (fresh h)) = None"
    proof (cases d)
      case Nil
      with built show ?thesis by (auto simp: DEFAULT_ATTRIBUTE_def)
    next
      case Cons
      with inv show ?thesis by auto
    qed
    with p 2 show ?thesis by simp
  next
    case 3
    with inv have "linked h' (fresh h) r" by blast
    with p show ?thesis by (simp add: linked_def)
  next
    case 4
    with un have "objs h' r = objs h r" by blast
    with p old show ?thesis by (simp add: ordered_def)
  qed
qed

lemma ordered_empty_heap: "ordered empty_heap"
  by (simp add: ordered_def empty_heap_def DEFAULT_ATTRIBUTE_def)

text \<open>The same at the example document, built in the empty store.\<close>

theorem built_store_is_ordered_witness:
  "PageObject_init sample_env example_doc None None empty_heap = Inr (0, example_tree)
   \<and> ordered empty_heap \<and> ordered example_tree"
  using built_store_is_ordered[OF example_built ordered_empty_heap]
  by (simp add: example_built ordered_empty_heap)

text \<open>
  On such a store resolution returns, with a value or with an exception: for the object
  at address \<open>r\<close> a depth bound of \<open>3 * r + 3\<close> is enough for \<^verbatim>\<open>find\<close> and
  \<open>3 * r + 2\<close> for \<^verbatim>\<open>ele\<close>.
\<close>

theorem find_returns_on_ordered_store:
  assumes "ordered w"
  shows "(3 * r + 3 \<le> n \<longrightarrow> (\<exists>res wx. PageObject_find n src r w = Some (res, wx)))
       \<and> (3 * r + 2 \<le> n \<longrightarrow> (\<exists>res wx. PageObject_ele n r w = Some (res, wx)))"
proof (intro conjI impI)
  assume "3 * r + 3 \<le> n"
  with enough_fuel_aux[OF assms, of r n src] have "PageObject_find n src r w \<noteq> None" by blast
  then show "\<exists>res wx. PageObject_find n src r w = Some (res, wx)" by auto
next
  assume "3 * r + 2 \<le> n"
  with enough_fuel_aux[OF assms, of r n src] have "PageObject_ele n r w \<noteq> None" by blast
  then show "\<exists>res wx. PageObject_ele n r w = Some (res, wx)" by auto
qed

lemma ordered_stale_child_world: "ordered stale_child_world"
  by (simp add: ordered_def stale_child_world_def world_simps)

text \<open>The same at the descriptor \<^verbatim>\<open>user\<close> (address 1) and its parent.\<close>

theorem find_returns_on_ordered_store_witness:
  "ordered stale_child_world
   \<and> 3 * 1 + 3 \<le> (6::nat) \<and> (\<exists>res wx. PageObject_find 6 [] 1 stale_child_world = Some (res, wx))
   \<and> 3 * 1 + 2 \<le> (5::nat) \<and> (\<exists>res wx. PageObject_ele 5 1 stale_child_world = Some (res, wx))"
  using find_returns_on_ordered_store[OF ordered_stale_child_world, of 1 6 "[]"]
    find_returns_on_ordered_store[OF ordered_stale_child_world, of 1 5 "[]"]
    ordered_stale_child_world
  by (simp del: PageObject_find.simps PageObject_ele.simps)

end
